theory Spec2Isabelle
  imports Complex_Main "HOL-Library.AList"
begin

section \<open>Data model\<close>

text \<open>
  One row of the table \<open>sths\<close> (Prisma model \<open>Sth\<close>). The columns \<open>tree_size\<close> and
  \<open>timestamp\<close> are PostgreSQL \<open>BIGINT\<close> (signed 64 bit), read back as JavaScript bigints;
  \<open>stored_at\<close> is a millisecond instant (\<open>TIMESTAMP(3)\<close>, a JavaScript \<open>Date\<close>), kept here as
  its epoch-millisecond value. Strings are lists of code units.
\<close>

record sth =
  rowId :: nat
  logId :: string
  treeSize :: int
  rootHash :: string
  timestamp :: int
  monitorId :: string
  storedAt :: int

text \<open>
  The table: its rows in insertion order, and the next value of the \<open>SERIAL\<close> key.
\<close>

record store =
  rows :: "sth list"
  next_id :: nat

definition empty_store :: store where
  "empty_store = \<lparr>rows = [], next_id = 1\<rparr>"

text \<open>
  A field of the request body after destructuring: missing (\<open>undefined\<close>), \<open>null\<close>, or a
  value of the type the schema \<open>CreateSth\<close> gives it. For the two integer fields
  \<open>Present v\<close> stands for a JSON value that \<open>BigInt(...)\<close> converts to \<open>v\<close>.
\<close>

datatype 'a field = Absent | Null | Present 'a

record create_sth =
  log_id :: "string field"
  tree_size :: "int field"
  root_hash :: "string field"
  req_timestamp :: "int field"
  monitor_id :: "string field"

record request =
  authorization :: "string option"
  body :: create_sth

text \<open>The object built by \<open>serializeSth\<close>; its two numeric fields are JavaScript numbers.\<close>

record sth_json =
  j_id :: nat
  j_log_id :: string
  j_tree_size :: int
  j_root_hash :: string
  j_timestamp :: int
  j_monitor_id :: string
  j_stored_at :: int

text \<open>The body of a successful \<open>GET /:logId\<close>.\<close>

record sth_response =
  g_log_id :: string
  g_tree_size :: int
  g_root_hash :: string
  g_timestamp :: int

text \<open>
  Outcomes of \<open>POST /\<close>: 201, 200, 400, 401, 500 (key not configured), and the exception the
  store raises for a value that does not fit a \<open>BIGINT\<close> column.
\<close>

datatype post_result =
    Created sth_json
  | Duplicate sth_json
  | ValidationError
  | Unauthorized
  | NotConfigured
  | StoreRejected

datatype get_result = Found sth_response | NotFound

section \<open>JavaScript primitives\<close>

text \<open>\<open>!x\<close> on a string-typed field: true for \<open>undefined\<close>, \<open>null\<close> and the empty string.\<close>

fun falsy :: "string field \<Rightarrow> bool" where
  "falsy Absent = True"
| "falsy Null = True"
| "falsy (Present s) = (s = [])"

text \<open>\<open>x == null\<close>: true for \<open>undefined\<close> and \<open>null\<close> only.\<close>

fun nullish :: "'a field \<Rightarrow> bool" where
  "nullish Absent = True"
| "nullish Null = True"
| "nullish (Present v) = False"

text \<open>Number of binary digits of a natural number.\<close>

fun bitlen :: "nat \<Rightarrow> nat" where
  "bitlen n = (if n = 0 then 0 else Suc (bitlen (n div 2)))"

declare bitlen.simps [simp del]

text \<open>
  \<open>Number(b)\<close> for a bigint \<open>b\<close>: the double nearest to \<open>b\<close>, ties to the even significand
  (53 significant bits). The result is an integer, given here by its value. Overflow to
  \<open>Infinity\<close> needs more than 1024 bits and cannot happen for a 64-bit column.
\<close>

definition Number :: "int \<Rightarrow> int" where
  "Number v =
     (let n = nat \<bar>v\<bar>;
          e = bitlen n - 53;
          q = n div 2 ^ e;
          r = n mod 2 ^ e;
          q' = (if 2 ^ e < 2 * r \<or> (2 * r = 2 ^ e \<and> odd q) then q + 1 else q)
      in sgn v * int (q' * 2 ^ e))"


section \<open>Store queries\<close>

text \<open>Range of a \<open>BIGINT\<close> column.\<close>

definition fits_bigint :: "int \<Rightarrow> bool" where
  "fits_bigint v \<longleftrightarrow> - (2 ^ 63) \<le> v \<and> v < 2 ^ 63"

text \<open>\<open>findFirst({ where })\<close> without ordering: the first matching row.\<close>

definition findFirst :: "(sth \<Rightarrow> bool) \<Rightarrow> sth list \<Rightarrow> sth option" where
  "findFirst p rs = List.find p rs"

text \<open>
  \<open>findFirst({ where, orderBy: { storedAt: "desc" } })\<close>: a matching row with the greatest
  \<open>stored_at\<close>; among equal instants the earliest inserted one.
\<close>

fun newest :: "sth list \<Rightarrow> sth option" where
  "newest [] = None"
| "newest (r # rs) =
     (case newest rs of
        None \<Rightarrow> Some r
      | Some m \<Rightarrow> if storedAt r < storedAt m then Some m else Some r)"

definition findFirst_desc :: "(sth \<Rightarrow> bool) \<Rightarrow> sth list \<Rightarrow> sth option" where
  "findFirst_desc p rs = newest (filter p rs)"



text \<open>\<open>count({ where })\<close>.\<close>

definition count_where :: "(sth \<Rightarrow> bool) \<Rightarrow> sth list \<Rightarrow> nat" where
  "count_where p rs = length (filter p rs)"


text \<open>
  \<open>create({ data })\<close>: the key comes from the sequence and \<open>stored_at\<close> from the column
  default \<open>CURRENT_TIMESTAMP\<close>, here the instant \<open>now\<close> of the insert.
\<close>

definition create :: "string \<Rightarrow> int \<Rightarrow> string \<Rightarrow> int \<Rightarrow> string \<Rightarrow> int \<Rightarrow> store \<Rightarrow> sth \<times> store" where
  "create l t h ts m now st =
     (let row = \<lparr>rowId = next_id st, logId = l, treeSize = t, rootHash = h,
                 timestamp = ts, monitorId = m, storedAt = now\<rparr>
      in (row, st\<lparr>rows := rows st @ [row], next_id := Suc (next_id st)\<rparr>))"

section \<open>Route \<open>/api/sth\<close>\<close>

definition serializeSth :: "sth \<Rightarrow> sth_json" where
  "serializeSth s =
     \<lparr>j_id = rowId s, j_log_id = logId s, j_tree_size = Number (treeSize s),
      j_root_hash = rootHash s, j_timestamp = Number (timestamp s),
      j_monitor_id = monitorId s, j_stored_at = storedAt s\<rparr>"

text \<open>The padding step of the POST handler.\<close>

definition normalizedLogId :: "string \<Rightarrow> string" where
  "normalizedLogId l =
     (let pad = (4 - length l mod 4) mod 4
      in if pad \<noteq> 0 then l @ replicate pad (CHR ''='') else l)"

text \<open>
  \<open>router.post("/")\<close>. \<open>apiKey\<close> is the environment variable \<open>MONITOR_API_KEY\<close>, \<open>now\<close> the
  store's clock at the insert. The result is the response and the store afterwards.
  After the check of the five fields each of them is \<open>Present\<close>, so the last case of the
  case distinction on them is never taken (lemmas \<open>post_sth_rejected\<close>, \<open>post_sth_accepted\<close>).
  Both store calls reject a \<open>tree_size\<close> outside the \<open>BIGINT\<close> range, the insert also such a
  \<open>timestamp\<close>.
\<close>

definition post_sth :: "string option \<Rightarrow> request \<Rightarrow> int \<Rightarrow> store \<Rightarrow> post_result \<times> store" where
  "post_sth apiKey req now st =
     (case apiKey of
        None \<Rightarrow> (NotConfigured, st)
      | Some key \<Rightarrow>
          if key = [] then (NotConfigured, st)
          else if authorization req = None \<or> authorization req = Some []
                  \<or> authorization req \<noteq> Some (''Bearer '' @ key)
          then (Unauthorized, st)
          else if falsy (log_id (body req)) \<or> nullish (tree_size (body req))
                  \<or> falsy (root_hash (body req)) \<or> nullish (req_timestamp (body req))
                  \<or> falsy (monitor_id (body req))
          then (ValidationError, st)
          else
            (case (log_id (body req), tree_size (body req), root_hash (body req),
                   req_timestamp (body req), monitor_id (body req)) of
               (Present l, Present t, Present h, Present ts, Present m) \<Rightarrow>
                 let n = normalizedLogId l in
                 if \<not> fits_bigint t then (StoreRejected, st)
                 else
                   (case findFirst (\<lambda>r. logId r = n \<and> treeSize r = t \<and> rootHash r = h) (rows st) of
                      Some existing \<Rightarrow> (Duplicate (serializeSth existing), st)
                    | None \<Rightarrow>
                        if \<not> fits_bigint ts then (StoreRejected, st)
                        else
                          (case create n t h ts m now st of
                             (row, st') \<Rightarrow> (Created (serializeSth row), st')))
             | _ \<Rightarrow> (ValidationError, st)))"

text \<open>
  \<open>router.get("/:logId")\<close>, from the decoded path parameter on. The handler pads the
  identifier with its own copy of the padding step.
\<close>

definition get_sth :: "string \<Rightarrow> store \<Rightarrow> get_result" where
  "get_sth logId0 st =
     (let getPad = (4 - length logId0 mod 4) mod 4;
          logId1 = (if getPad \<noteq> 0 then logId0 @ replicate getPad (CHR ''='') else logId0)
      in case findFirst_desc (\<lambda>r. logId r = logId1) (rows st) of
           None \<Rightarrow> NotFound
         | Some s \<Rightarrow>
             Found \<lparr>g_log_id = logId s, g_tree_size = Number (treeSize s),
                    g_root_hash = rootHash s, g_timestamp = Number (timestamp s)\<rparr>)"

text \<open>Submissions handled one after the other, each with the clock value of its insert.\<close>

fun submit_all :: "string option \<Rightarrow> (request \<times> int) list \<Rightarrow> store \<Rightarrow> store" where
  "submit_all apiKey [] st = st"
| "submit_all apiKey ((req, now) # todo) st = submit_all apiKey todo (snd (post_sth apiKey req now st))"

section \<open>Migration \<open>normalize_logid_padding\<close>\<close>


section \<open>Route \<open>/api/stats\<close>\<close>

text \<open>
  The handler reads the store many times; here all reads see one state of the table.
  \<open>now\<close> is the instant the handler captures first. \<open>toISOString\<close>, the formatting of an
  instant, is a parameter.
\<close>

record hour_bucket =
  hour :: string
  h_count :: nat

record five_min_bucket =
  time :: string
  f_count :: nat

text \<open>
  \<open>for (let i = 23; i >= 0; i--)\<close>: the counter of the recursion is \<open>i + 1\<close>, the list built
  so far is \<open>hourlyBuckets\<close>.
\<close>

fun hourly_loop :: "(int \<Rightarrow> string) \<Rightarrow> int \<Rightarrow> sth list \<Rightarrow> nat \<Rightarrow> hour_bucket list \<Rightarrow> hour_bucket list" where
  "hourly_loop toISOString now rs 0 buckets = buckets"
| "hourly_loop toISOString now rs (Suc i) buckets =
     (let bucketStart = now - (int i + 1) * 60 * 60 * 1000;
          bucketEnd = now - int i * 60 * 60 * 1000;
          count = count_where (\<lambda>r. bucketStart \<le> storedAt r \<and> storedAt r < bucketEnd) rs
      in hourly_loop toISOString now rs i
           (buckets @ [\<lparr>hour = take 13 (toISOString bucketStart) @ '':00Z'', h_count = count\<rparr>]))"

definition hourlyBuckets :: "(int \<Rightarrow> string) \<Rightarrow> int \<Rightarrow> store \<Rightarrow> hour_bucket list" where
  "hourlyBuckets toISOString now st = hourly_loop toISOString now (rows st) 24 []"

fun five_min_loop :: "(int \<Rightarrow> string) \<Rightarrow> int \<Rightarrow> sth list \<Rightarrow> nat \<Rightarrow> five_min_bucket list \<Rightarrow> five_min_bucket list" where
  "five_min_loop toISOString now rs 0 buckets = buckets"
| "five_min_loop toISOString now rs (Suc i) buckets =
     (let bucketStart = now - (int i + 1) * 5 * 60 * 1000;
          bucketEnd = now - int i * 5 * 60 * 1000;
          count = count_where (\<lambda>r. bucketStart \<le> storedAt r \<and> storedAt r < bucketEnd) rs
      in five_min_loop toISOString now rs i
           (buckets @ [\<lparr>time = take 5 (drop 11 (toISOString bucketStart)) @ ''Z'', f_count = count\<rparr>]))"

definition fiveMinBuckets :: "(int \<Rightarrow> string) \<Rightarrow> int \<Rightarrow> store \<Rightarrow> five_min_bucket list" where
  "fiveMinBuckets toISOString now st = five_min_loop toISOString now (rows st) 12 []"

subsection \<open>Cross-monitor consistency\<close>








subsection \<open>Data range and ingestion rates\<close>






section \<open>Vocabulary of the properties\<close>

text \<open>
  A request that carries the bearer token of \<open>key\<close> and all five fields.
\<close>

definition submission :: "string \<Rightarrow> string \<Rightarrow> int \<Rightarrow> string \<Rightarrow> int \<Rightarrow> string \<Rightarrow> request" where
  "submission key l t h ts m =
     \<lparr>authorization = Some (''Bearer '' @ key),
      body = \<lparr>log_id = Present l, tree_size = Present t, root_hash = Present h,
               req_timestamp = Present ts, monitor_id = Present m\<rparr>\<rparr>"

text \<open>The identity of a row for deduplication.\<close>

definition identity_triple :: "sth \<Rightarrow> string \<times> int \<times> string" where
  "identity_triple r = (logId r, treeSize r, rootHash r)"

text \<open>
  Two monitors report on the log \<open>AAA=\<close>; the row stored last carries the smaller
  monitor-claimed timestamp.
\<close>

definition two_observations :: store where
  "two_observations =
     \<lparr>rows = [\<lparr>rowId = 1, logId = ''AAA='', treeSize = 10, rootHash = ''h1'',
                timestamp = 9000, monitorId = ''m1'', storedAt = 100\<rparr>,
               \<lparr>rowId = 2, logId = ''AAA='', treeSize = 11, rootHash = ''h2'',
                timestamp = 8000, monitorId = ''m2'', storedAt = 200\<rparr>],
      next_id = 3\<rparr>"

text \<open>Three rows stored about an hour apart from each other.\<close>

definition spread_store :: store where
  "spread_store =
     \<lparr>rows = [\<lparr>rowId = 1, logId = ''AAA='', treeSize = 10, rootHash = ''h1'',
                timestamp = 0, monitorId = ''m1'', storedAt = 0\<rparr>,
               \<lparr>rowId = 2, logId = ''AAA='', treeSize = 11, rootHash = ''h2'',
                timestamp = 4000000, monitorId = ''m1'', storedAt = 4000000\<rparr>,
               \<lparr>rowId = 3, logId = ''AAA='', treeSize = 12, rootHash = ''h3'',
                timestamp = 7300000, monitorId = ''m1'', storedAt = 7300000\<rparr>],
      next_id = 4\<rparr>"




section \<open>Properties\<close>

subsection \<open>Padding\<close>

lemma pad_cases: "(4 - n mod 4) mod 4 = (if n mod 4 = 0 then 0 else 4 - n mod (4::nat))"
proof (cases "n mod 4 = 0")
  case True
  then show ?thesis by simp
next
  case False
  then have "4 - n mod 4 < 4" by linarith
  with False show ?thesis by simp
qed

lemma normalizedLogId_unpadded:
  "length x mod 4 \<noteq> 0 \<Longrightarrow> normalizedLogId x = x @ replicate (4 - length x mod 4) (CHR ''='')"
  by (simp add: normalizedLogId_def Let_def pad_cases)

lemma normalizedLogId_padded: "length x mod 4 = 0 \<Longrightarrow> normalizedLogId x = x"
  by (simp add: normalizedLogId_def)

lemma length_normalizedLogId: "length (normalizedLogId x) mod 4 = 0"
proof (cases "length x mod 4 = 0")
  case True
  then show ?thesis by (simp add: normalizedLogId_padded)
next
  case False
  define q r where "q = length x div 4" and "r = length x mod 4"
  have "length x = 4 * q + r" unfolding q_def r_def by simp
  then have "length x + 4 - r = 4 * (q + 1)" by simp
  then have "(length x + 4 - length x mod 4) mod 4 = 0" unfolding r_def by simp
  with False show ?thesis by (simp add: normalizedLogId_unpadded)
qed

text \<open>
  C3. The padding step returns an identifier whose length is a multiple of 4 unchanged and
  otherwise appends exactly \<open>4 - (length mod 4)\<close> pad characters; the result always has a
  length divisible by 4, and padding twice is the same as padding once.
\<close>

theorem normalizedLogId_canonical:
  "(length x mod 4 = 0 \<longrightarrow> normalizedLogId x = x)
   \<and> (length x mod 4 \<noteq> 0 \<longrightarrow> normalizedLogId x = x @ replicate (4 - length x mod 4) (CHR ''=''))
   \<and> length (normalizedLogId x) mod 4 = 0
   \<and> normalizedLogId (normalizedLogId x) = normalizedLogId x"
proof -
  have a: "length x mod 4 = 0 \<longrightarrow> normalizedLogId x = x"
    by (simp add: normalizedLogId_padded)
  have b: "length x mod 4 \<noteq> 0 \<longrightarrow> normalizedLogId x = x @ replicate (4 - length x mod 4) (CHR ''='')"
    by (simp add: normalizedLogId_unpadded)
  have c: "length (normalizedLogId x) mod 4 = 0"
    by (rule length_normalizedLogId)
  have d: "normalizedLogId (normalizedLogId x) = normalizedLogId x"
    using c by (rule normalizedLogId_padded)
  from a b c d show ?thesis by blast
qed

theorem normalizedLogId_canonical_witness:
  "length ''AAA='' mod 4 = 0 \<and> normalizedLogId ''AAA='' = ''AAA=''
   \<and> length ''AAA'' mod 4 \<noteq> 0 \<and> normalizedLogId ''AAA'' = ''AAA=''"
proof -
  have p: "length ''AAA='' mod 4 = 0" by simp
  have u: "length ''AAA'' mod 4 \<noteq> 0" by simp
  from normalizedLogId_canonical [of "''AAA=''", THEN conjunct1]
  have 1: "normalizedLogId ''AAA='' = ''AAA=''" by (rule mp [OF _ p])
  from normalizedLogId_canonical [of "''AAA''", THEN conjunct2, THEN conjunct1]
  have "normalizedLogId ''AAA'' = ''AAA'' @ replicate (4 - length ''AAA'' mod 4) (CHR ''='')" by (rule mp [OF _ u])
  then have 2: "normalizedLogId ''AAA'' = ''AAA=''" by simp
  from p u 1 2 show ?thesis by (intro conjI)
qed

subsection \<open>Conversion of bigints to numbers\<close>

lemma bitlen_le: "n < 2 ^ k \<Longrightarrow> bitlen n \<le> k"
proof (induction k arbitrary: n)
  case 0
  then have "n = 0" by simp
  then show ?case by (simp add: bitlen.simps[of 0])
next
  case (Suc k)
  then have "n div 2 < 2 ^ k" by simp
  then have "bitlen (n div 2) \<le> k" by (rule Suc.IH)
  then show ?case by (subst bitlen.simps) simp
qed

lemma Number_exact: "\<bar>v\<bar> < 2 ^ 53 \<Longrightarrow> Number v = v"
proof -
  assume a: "\<bar>v\<bar> < 2 ^ 53"
  then have "nat \<bar>v\<bar> < 2 ^ 53" by (simp add: nat_less_iff)
  then have "bitlen (nat \<bar>v\<bar>) - 53 = 0" using bitlen_le by simp
  then show ?thesis by (simp add: Number_def Let_def mult_sgn_abs)
qed

lemma bitlen_eq: "2 ^ k \<le> n \<Longrightarrow> n < 2 * 2 ^ k \<Longrightarrow> bitlen n = Suc k"
proof (induction k arbitrary: n)
  case 0
  then have "n = Suc 0" by simp
  then show ?case by (simp add: bitlen.simps[of "Suc 0"] bitlen.simps[of 0])
next
  case (Suc k)
  then have "2 ^ k \<le> n div 2" "n div 2 < 2 * 2 ^ k" by simp_all
  then have "bitlen (n div 2) = Suc k" by (rule Suc.IH)
  moreover have "n \<noteq> 0" using Suc.prems by auto
  ultimately show ?case by (subst bitlen.simps) simp
qed

subsection \<open>Submission\<close>

lemma post_sth_submission:
  "key \<noteq> [] \<Longrightarrow> l \<noteq> [] \<Longrightarrow> h \<noteq> [] \<Longrightarrow> m \<noteq> [] \<Longrightarrow>
   post_sth (Some key) (submission key l t h ts m) now st =
     (if \<not> fits_bigint t then (StoreRejected, st)
      else case findFirst (\<lambda>r. logId r = normalizedLogId l \<and> treeSize r = t \<and> rootHash r = h) (rows st) of
             Some existing \<Rightarrow> (Duplicate (serializeSth existing), st)
           | None \<Rightarrow>
               if \<not> fits_bigint ts then (StoreRejected, st)
               else (Created (serializeSth \<lparr>rowId = next_id st, logId = normalizedLogId l, treeSize = t,
                                            rootHash = h, timestamp = ts, monitorId = m, storedAt = now\<rparr>),
                     st\<lparr>rows := rows st @ [\<lparr>rowId = next_id st, logId = normalizedLogId l, treeSize = t,
                                            rootHash = h, timestamp = ts, monitorId = m, storedAt = now\<rparr>],
                        next_id := Suc (next_id st)\<rparr>))"
  by (simp add: post_sth_def submission_def create_def Let_def split: option.split)

lemma findFirst_None: "findFirst p rs = None \<longleftrightarrow> (\<forall>r\<in>set rs. \<not> p r)"
  by (auto simp: findFirst_def find_None_iff)














subsection \<open>Invariants of the table\<close>

lemma post_sth_rows:
  "rows (snd (post_sth apiKey req now st)) = rows st
   \<or> (\<exists>row. rows (snd (post_sth apiKey req now st)) = rows st @ [row]
          \<and> length (logId row) mod 4 = 0
          \<and> identity_triple row \<notin> identity_triple ` set (rows st))"
  by (auto simp: post_sth_def create_def Let_def findFirst_None identity_triple_def
        length_normalizedLogId
      split: option.split field.split prod.split)

lemma post_sth_keeps_distinct:
  assumes "distinct (map identity_triple (rows st))"
  shows "distinct (map identity_triple (rows (snd (post_sth apiKey req now st))))"
  using post_sth_rows [of apiKey req now st] assms by auto

text \<open>
  C9. Submissions handled one at a time keep the identity triple
  \<open>(log_id, tree_size, root_hash)\<close> unique: from a store without two rows of the same
  triple, every store reached has none either.
\<close>

theorem sequential_submissions_keep_triples_unique:
  "distinct (map identity_triple (rows st)) \<Longrightarrow>
   distinct (map identity_triple (rows (submit_all apiKey reqs st)))"
proof (induction reqs arbitrary: st)
  case Nil
  then show ?case by simp
next
  case (Cons a reqs)
  obtain req now where a: "a = (req, now)" by (cases a)
  from Cons.prems have "distinct (map identity_triple (rows (snd (post_sth apiKey req now st))))"
    by (rule post_sth_keeps_distinct)
  then show ?case unfolding a by (simp add: Cons.IH)
qed

lemma post_sth_AAA_first:
  "post_sth (Some ''k'') (submission ''k'' ''AAA='' 10 ''h1'' 1000 ''m1'') 5 empty_store =
     (Created (serializeSth \<lparr>rowId = 1, logId = ''AAA='', treeSize = 10, rootHash = ''h1'',
                 timestamp = 1000, monitorId = ''m1'', storedAt = 5\<rparr>),
      \<lparr>rows = [\<lparr>rowId = 1, logId = ''AAA='', treeSize = 10, rootHash = ''h1'',
                 timestamp = 1000, monitorId = ''m1'', storedAt = 5\<rparr>], next_id = 2\<rparr>)"
  by (simp add: post_sth_submission fits_bigint_def empty_store_def findFirst_def
        normalizedLogId_padded)

theorem sequential_submissions_keep_triples_unique_witness:
  "distinct (map identity_triple (rows empty_store))
   \<and> distinct (map identity_triple (rows (submit_all (Some ''k'')
        [(submission ''k'' ''AAA='' 10 ''h1'' 1000 ''m1'', 5),
         (submission ''k'' ''AAA'' 10 ''h1'' 2000 ''m2'', 6),
         (submission ''k'' ''AAA='' 11 ''h2'' 3000 ''m2'', 7)] empty_store)))
   \<and> map identity_triple (rows (submit_all (Some ''k'')
        [(submission ''k'' ''AAA='' 10 ''h1'' 1000 ''m1'', 5),
         (submission ''k'' ''AAA'' 10 ''h1'' 2000 ''m2'', 6),
         (submission ''k'' ''AAA='' 11 ''h2'' 3000 ''m2'', 7)] empty_store))
       = [(''AAA='', 10, ''h1''), (''AAA='', 11, ''h2'')]"
proof -
  have e: "distinct (map identity_triple (rows empty_store))"
    by (simp add: empty_store_def)
  have v: "map identity_triple (rows (submit_all (Some ''k'')
        [(submission ''k'' ''AAA='' 10 ''h1'' 1000 ''m1'', 5),
         (submission ''k'' ''AAA'' 10 ''h1'' 2000 ''m2'', 6),
         (submission ''k'' ''AAA='' 11 ''h2'' 3000 ''m2'', 7)] empty_store))
       = [(''AAA='', 10, ''h1''), (''AAA='', 11, ''h2'')]"
    by (simp add: post_sth_submission fits_bigint_def empty_store_def findFirst_def
          normalizedLogId_padded normalizedLogId_unpadded identity_triple_def)
  from e sequential_submissions_keep_triples_unique [OF e] v show ?thesis by (intro conjI)
qed










subsection \<open>Latest attestation of a log\<close>

lemma newest_None: "newest rs = None \<longleftrightarrow> rs = []"
  by (induction rs) (auto split: option.split)

lemma newest_Some:
  "newest rs = Some m \<Longrightarrow> m \<in> set rs \<and> (\<forall>r\<in>set rs. storedAt r \<le> storedAt m)"
proof (induction rs arbitrary: m)
  case Nil
  then show ?case by simp
next
  case (Cons a rs)
  show ?case
  proof (cases "newest rs")
    case None
    then have "rs = []" by (simp add: newest_None)
    with Cons.prems show ?thesis by simp
  next
    case (Some b)
    then have b: "b \<in> set rs" "\<forall>r\<in>set rs. storedAt r \<le> storedAt b"
      using Cons.IH by simp_all
    show ?thesis
    proof (cases "storedAt a < storedAt b")
      case True
      with Some Cons.prems have "m = b" by simp
      with b True show ?thesis by auto
    next
      case False
      with Some Cons.prems have "m = a" by simp
      with b False show ?thesis by fastforce
    qed
  qed
qed

lemma findFirst_desc_None: "findFirst_desc p rs = None \<longleftrightarrow> (\<forall>r\<in>set rs. \<not> p r)"
  by (simp add: findFirst_desc_def newest_None filter_empty_conv)

lemma findFirst_desc_Some:
  "findFirst_desc p rs = Some m \<Longrightarrow>
   m \<in> set rs \<and> p m \<and> (\<forall>r\<in>set rs. p r \<longrightarrow> storedAt r \<le> storedAt m)"
  using newest_Some [of "filter p rs" m] by (simp add: findFirst_desc_def)

lemma get_sth_normalized:
  "get_sth raw st =
     (case findFirst_desc (\<lambda>r. logId r = normalizedLogId raw) (rows st) of
        None \<Rightarrow> NotFound
      | Some s \<Rightarrow> Found \<lparr>g_log_id = logId s, g_tree_size = Number (treeSize s),
                          g_root_hash = rootHash s, g_timestamp = Number (timestamp s)\<rparr>)"
  by (simp add: get_sth_def normalizedLogId_def Let_def)

text \<open>
  C8. The lookup pads the path identifier as the submission does. It answers 404 exactly
  when no row carries the padded identifier; otherwise it reports a row of that log whose
  \<open>stored_at\<close> is not exceeded by any other row of the log.
\<close>

theorem latest_for_log:
  "(get_sth raw st = NotFound \<longleftrightarrow> (\<forall>r\<in>set (rows st). logId r \<noteq> normalizedLogId raw))
   \<and> (\<forall>g. get_sth raw st = Found g \<longrightarrow>
         (\<exists>s\<in>set (rows st).
             logId s = normalizedLogId raw
           \<and> (\<forall>r\<in>set (rows st). logId r = normalizedLogId raw \<longrightarrow> storedAt r \<le> storedAt s)
           \<and> g = \<lparr>g_log_id = logId s, g_tree_size = Number (treeSize s),
                   g_root_hash = rootHash s, g_timestamp = Number (timestamp s)\<rparr>))"
proof (cases "findFirst_desc (\<lambda>r. logId r = normalizedLogId raw) (rows st)")
  case None
  then have "get_sth raw st = NotFound" by (simp add: get_sth_normalized)
  moreover from None have "\<forall>r\<in>set (rows st). logId r \<noteq> normalizedLogId raw"
    by (simp add: findFirst_desc_None)
  ultimately show ?thesis by simp
next
  case (Some s)
  then have g: "get_sth raw st = Found \<lparr>g_log_id = logId s, g_tree_size = Number (treeSize s),
                          g_root_hash = rootHash s, g_timestamp = Number (timestamp s)\<rparr>"
    by (simp add: get_sth_normalized)
  from Some have s: "s \<in> set (rows st)" "logId s = normalizedLogId raw"
    "\<forall>r\<in>set (rows st). logId r = normalizedLogId raw \<longrightarrow> storedAt r \<le> storedAt s"
    using findFirst_desc_Some [of "\<lambda>r. logId r = normalizedLogId raw" "rows st" s] by simp_all
  from s(1,2) have "\<not> (\<forall>r\<in>set (rows st). logId r \<noteq> normalizedLogId raw)" by blast
  with g s show ?thesis by auto
qed

theorem latest_for_log_witness:
  "get_sth ''BBB'' two_observations = NotFound
   \<and> get_sth ''AAA'' two_observations =
       Found \<lparr>g_log_id = ''AAA='', g_tree_size = 11, g_root_hash = ''h2'', g_timestamp = 8000\<rparr>"
proof -
  have "normalizedLogId ''BBB'' = ''BBB=''" by (simp add: normalizedLogId_unpadded)
  then have "\<forall>r\<in>set (rows two_observations). logId r \<noteq> normalizedLogId ''BBB''"
    by (simp add: two_observations_def)
  with latest_for_log [of "''BBB''" two_observations, THEN conjunct1]
  have a: "get_sth ''BBB'' two_observations = NotFound" by (rule iffD2)
  have "Number 11 = 11" "Number 8000 = 8000" by (simp_all add: Number_exact)
  then have b: "get_sth ''AAA'' two_observations =
       Found \<lparr>g_log_id = ''AAA='', g_tree_size = 11, g_root_hash = ''h2'', g_timestamp = 8000\<rparr>"
    by (simp add: get_sth_normalized normalizedLogId_unpadded two_observations_def findFirst_desc_def)
  from a b show ?thesis by (rule conjI)
qed

subsection \<open>Numbers in responses\<close>

lemma findFirst_SomeD: "findFirst p rs = Some x \<Longrightarrow> x \<in> set rs"
  by (auto simp: findFirst_def find_Some_iff)

lemma post_sth_reports_row:
  assumes "fst (post_sth apiKey req now st) = Created j \<or> fst (post_sth apiKey req now st) = Duplicate j"
  shows "\<exists>s\<in>set (rows (snd (post_sth apiKey req now st))). j = serializeSth s"
  using assms
  by (auto simp: post_sth_def create_def Let_def
      split: option.splits field.splits if_splits dest: findFirst_SomeD)

text \<open>
  C10 (amended). The record a submission answers with and the record the lookup answers
  with are those of a stored row, and they give \<open>tree_size\<close> and \<open>timestamp\<close> exactly
  whenever the stored value lies strictly between \<open>-2^53\<close> and \<open>2^53\<close>.
\<close>

theorem response_numbers_exact:
  "(\<forall>j. fst (post_sth apiKey req now st) = Created j \<or> fst (post_sth apiKey req now st) = Duplicate j \<longrightarrow>
       (\<exists>s\<in>set (rows (snd (post_sth apiKey req now st))).
           j = serializeSth s
         \<and> (\<bar>treeSize s\<bar> < 2 ^ 53 \<longrightarrow> j_tree_size j = treeSize s)
         \<and> (\<bar>timestamp s\<bar> < 2 ^ 53 \<longrightarrow> j_timestamp j = timestamp s)))
   \<and> (\<forall>g. get_sth raw st = Found g \<longrightarrow>
       (\<exists>s\<in>set (rows st).
           g_log_id g = logId s \<and> g_root_hash g = rootHash s
         \<and> g_tree_size g = Number (treeSize s) \<and> g_timestamp g = Number (timestamp s)
         \<and> (\<bar>treeSize s\<bar> < 2 ^ 53 \<longrightarrow> g_tree_size g = treeSize s)
         \<and> (\<bar>timestamp s\<bar> < 2 ^ 53 \<longrightarrow> g_timestamp g = timestamp s)))"
proof (intro conjI allI impI)
  fix j
  assume "fst (post_sth apiKey req now st) = Created j \<or> fst (post_sth apiKey req now st) = Duplicate j"
  then obtain s where s: "s \<in> set (rows (snd (post_sth apiKey req now st)))" "j = serializeSth s"
    using post_sth_reports_row by blast
  have "\<bar>treeSize s\<bar> < 2 ^ 53 \<longrightarrow> j_tree_size j = treeSize s"
    by (simp add: s(2) serializeSth_def Number_exact)
  moreover have "\<bar>timestamp s\<bar> < 2 ^ 53 \<longrightarrow> j_timestamp j = timestamp s"
    by (simp add: s(2) serializeSth_def Number_exact)
  ultimately show "\<exists>s\<in>set (rows (snd (post_sth apiKey req now st))).
           j = serializeSth s
         \<and> (\<bar>treeSize s\<bar> < 2 ^ 53 \<longrightarrow> j_tree_size j = treeSize s)
         \<and> (\<bar>timestamp s\<bar> < 2 ^ 53 \<longrightarrow> j_timestamp j = timestamp s)"
    using s by blast
next
  fix g
  assume "get_sth raw st = Found g"
  then obtain s where s: "s \<in> set (rows st)"
      "g = \<lparr>g_log_id = logId s, g_tree_size = Number (treeSize s),
            g_root_hash = rootHash s, g_timestamp = Number (timestamp s)\<rparr>"
    by (auto simp: get_sth_normalized split: option.splits dest: findFirst_desc_Some)
  have "\<bar>treeSize s\<bar> < 2 ^ 53 \<longrightarrow> g_tree_size g = treeSize s"
    by (simp add: s(2) Number_exact)
  moreover have "\<bar>timestamp s\<bar> < 2 ^ 53 \<longrightarrow> g_timestamp g = timestamp s"
    by (simp add: s(2) Number_exact)
  ultimately show "\<exists>s\<in>set (rows st).
           g_log_id g = logId s \<and> g_root_hash g = rootHash s
         \<and> g_tree_size g = Number (treeSize s) \<and> g_timestamp g = Number (timestamp s)
         \<and> (\<bar>treeSize s\<bar> < 2 ^ 53 \<longrightarrow> g_tree_size g = treeSize s)
         \<and> (\<bar>timestamp s\<bar> < 2 ^ 53 \<longrightarrow> g_timestamp g = timestamp s)"
    using s by (intro bexI [of _ s]) simp_all
qed

theorem response_numbers_exact_witness:
  "fst (post_sth (Some ''k'') (submission ''k'' ''AAA='' 10 ''h1'' 1000 ''m1'') 5 empty_store)
     = Created \<lparr>j_id = 1, j_log_id = ''AAA='', j_tree_size = 10, j_root_hash = ''h1'',
                j_timestamp = 1000, j_monitor_id = ''m1'', j_stored_at = 5\<rparr>
   \<and> get_sth ''AAA'' two_observations =
       Found \<lparr>g_log_id = ''AAA='', g_tree_size = 11, g_root_hash = ''h2'', g_timestamp = 8000\<rparr>"
proof -
  let ?row = "\<lparr>rowId = 1, logId = ''AAA='', treeSize = 10, rootHash = ''h1'',
                 timestamp = 1000, monitorId = ''m1'', storedAt = 5\<rparr>"
  let ?p = "post_sth (Some ''k'') (submission ''k'' ''AAA='' 10 ''h1'' 1000 ''m1'') 5 empty_store"
  note t = response_numbers_exact [of "Some ''k''" "submission ''k'' ''AAA='' 10 ''h1'' 1000 ''m1''" 5
      empty_store "''AAA''"]
  have c: "fst ?p = Created (serializeSth ?row)" and r: "rows (snd ?p) = [?row]"
    by (simp_all add: post_sth_AAA_first)
  from t c obtain s where s: "s \<in> set (rows (snd ?p))" "serializeSth ?row = serializeSth s"
      "\<bar>treeSize s\<bar> < 2 ^ 53 \<longrightarrow> j_tree_size (serializeSth ?row) = treeSize s"
      "\<bar>timestamp s\<bar> < 2 ^ 53 \<longrightarrow> j_timestamp (serializeSth ?row) = timestamp s"
    by blast
  from s(1) r have "s = ?row" by simp
  with s(3,4) have "j_tree_size (serializeSth ?row) = 10" "j_timestamp (serializeSth ?row) = 1000"
    by simp_all
  then have "serializeSth ?row = \<lparr>j_id = 1, j_log_id = ''AAA='', j_tree_size = 10, j_root_hash = ''h1'',
                j_timestamp = 1000, j_monitor_id = ''m1'', j_stored_at = 5\<rparr>"
    by (simp add: serializeSth_def)
  with c have a: "fst ?p = Created \<lparr>j_id = 1, j_log_id = ''AAA='', j_tree_size = 10, j_root_hash = ''h1'',
                j_timestamp = 1000, j_monitor_id = ''m1'', j_stored_at = 5\<rparr>" by simp
  have "Number 11 = 11" "Number 8000 = 8000" by (simp_all add: Number_exact)
  then have b: "get_sth ''AAA'' two_observations =
       Found \<lparr>g_log_id = ''AAA='', g_tree_size = 11, g_root_hash = ''h2'', g_timestamp = 8000\<rparr>"
    by (simp add: get_sth_normalized normalizedLogId_unpadded two_observations_def findFirst_desc_def)
  from a b show ?thesis by (rule conjI)
qed

text \<open>
  A stored \<open>tree_size\<close> below \<open>-2^53\<close> is less than \<open>2^53\<close>, and the response reports a
  different number.
\<close>

theorem response_numbers_counterexample:
  "post_sth (Some ''k'') (submission ''k'' ''AAA='' (- 9007199254740993) ''h1'' 1000 ''m1'') 5 empty_store
     = (Created \<lparr>j_id = 1, j_log_id = ''AAA='', j_tree_size = - 9007199254740992, j_root_hash = ''h1'',
                  j_timestamp = 1000, j_monitor_id = ''m1'', j_stored_at = 5\<rparr>,
        \<lparr>rows = [\<lparr>rowId = 1, logId = ''AAA='', treeSize = - 9007199254740993, rootHash = ''h1'',
                   timestamp = 1000, monitorId = ''m1'', storedAt = 5\<rparr>], next_id = 2\<rparr>)
   \<and> (- 9007199254740993 :: int) < 2 ^ 53 \<and> (1000 :: int) < 2 ^ 53"
proof -
  have "bitlen 9007199254740993 = Suc 53"
    by (rule bitlen_eq) simp_all
  then have n: "Number (- 9007199254740993) = - 9007199254740992"
    by (simp add: Number_def Let_def)
  have m: "Number 1000 = 1000" by (simp add: Number_exact)
  show ?thesis
    by (simp add: post_sth_submission fits_bigint_def empty_store_def findFirst_def
          normalizedLogId_padded serializeSth_def n m)
qed

subsection \<open>Histograms\<close>

lemma hourly_loop_eq:
  "hourly_loop fmt now rs n buckets =
     buckets @ map (\<lambda>i. \<lparr>hour = take 13 (fmt (now - (int i + 1) * 3600000)) @ '':00Z'',
                          h_count = length [r\<leftarrow>rs. now - (int i + 1) * 3600000 \<le> storedAt r
                                                  \<and> storedAt r < now - int i * 3600000]\<rparr>)
                   (rev [0..<n])"
  by (induction n arbitrary: buckets) (simp_all add: Let_def count_where_def algebra_simps)

lemma five_min_loop_eq:
  "five_min_loop fmt now rs n buckets =
     buckets @ map (\<lambda>i. \<lparr>time = take 5 (drop 11 (fmt (now - (int i + 1) * 300000))) @ ''Z'',
                          f_count = length [r\<leftarrow>rs. now - (int i + 1) * 300000 \<le> storedAt r
                                                  \<and> storedAt r < now - int i * 300000]\<rparr>)
                   (rev [0..<n])"
  by (induction n arbitrary: buckets) (simp_all add: Let_def count_where_def algebra_simps)

lemma rev_upt_nth: "i < n \<Longrightarrow> rev [0..<n] ! (n - Suc i) = i"
  by (simp add: rev_nth)

lemma length_filter_split:
  "length [r\<leftarrow>rs. a \<le> storedAt r \<and> storedAt r < b] + length [r\<leftarrow>rs. b \<le> storedAt r \<and> storedAt r < c]
     = length [r\<leftarrow>rs. a \<le> storedAt r \<and> storedAt r < c]"
  if "a \<le> b" "b \<le> c"
  using that by (induction rs) auto

lemma window_sum:
  assumes "0 \<le> w"
  shows "(\<Sum>i\<leftarrow>rev [0..<n]. length [r\<leftarrow>rs. now - (int i + 1) * w \<le> storedAt r \<and> storedAt r < now - int i * w])
       = length [r\<leftarrow>rs. now - int n * w \<le> storedAt r \<and> storedAt r < now]"
proof (induction n)
  case 0
  then show ?case by simp
next
  case (Suc n)
  have "now - (int n + 1) * w \<le> now - int n * w" "now - int n * w \<le> now"
    using assms by (simp_all add: algebra_simps)
  then have "length [r\<leftarrow>rs. now - (int n + 1) * w \<le> storedAt r \<and> storedAt r < now - int n * w]
           + length [r\<leftarrow>rs. now - int n * w \<le> storedAt r \<and> storedAt r < now]
         = length [r\<leftarrow>rs. now - (int n + 1) * w \<le> storedAt r \<and> storedAt r < now]"
    by (rule length_filter_split)
  with Suc show ?case by (simp add: add.commute)
qed


lemma hourlyBuckets_eq:
  "hourlyBuckets fmt now st =
     map (\<lambda>i. \<lparr>hour = take 13 (fmt (now - (int i + 1) * 3600000)) @ '':00Z'',
                h_count = length [r\<leftarrow>rows st. now - (int i + 1) * 3600000 \<le> storedAt r
                                             \<and> storedAt r < now - int i * 3600000]\<rparr>)
         (rev [0..<24])"
  by (simp add: hourlyBuckets_def hourly_loop_eq del: upt_rec_numeral)

lemma fiveMinBuckets_eq:
  "fiveMinBuckets fmt now st =
     map (\<lambda>i. \<lparr>time = take 5 (drop 11 (fmt (now - (int i + 1) * 300000))) @ ''Z'',
                f_count = length [r\<leftarrow>rows st. now - (int i + 1) * 300000 \<le> storedAt r
                                             \<and> storedAt r < now - int i * 300000]\<rparr>)
         (rev [0..<12])"
  by (simp add: fiveMinBuckets_def five_min_loop_eq del: upt_rec_numeral)

lemma hourly_nth:
  assumes "i < 24"
  shows "hourlyBuckets fmt now st ! (23 - i) =
           \<lparr>hour = take 13 (fmt (now - (int i + 1) * 3600000)) @ '':00Z'',
            h_count = length [r\<leftarrow>rows st. now - (int i + 1) * 3600000 \<le> storedAt r
                                         \<and> storedAt r < now - int i * 3600000]\<rparr>"
proof -
  have "rev [0..<24] ! (24 - Suc i) = i" using assms by (rule rev_upt_nth)
  moreover have "24 - Suc i = 23 - i" by simp
  moreover have "23 - i < length (rev [0..<24])" using assms by simp
  ultimately show ?thesis
    unfolding hourlyBuckets_eq by (simp del: upt_rec_numeral)
qed

lemma five_min_nth:
  assumes "i < 12"
  shows "fiveMinBuckets fmt now st ! (11 - i) =
           \<lparr>time = take 5 (drop 11 (fmt (now - (int i + 1) * 300000))) @ ''Z'',
            f_count = length [r\<leftarrow>rows st. now - (int i + 1) * 300000 \<le> storedAt r
                                         \<and> storedAt r < now - int i * 300000]\<rparr>"
proof -
  have "rev [0..<12] ! (12 - Suc i) = i" using assms by (rule rev_upt_nth)
  moreover have "12 - Suc i = 11 - i" by simp
  moreover have "11 - i < length (rev [0..<12])" using assms by simp
  ultimately show ?thesis
    unfolding fiveMinBuckets_eq by (simp del: upt_rec_numeral)
qed

lemma hourly_sum:
  "sum_list (map h_count (hourlyBuckets fmt now st)) =
     length [r\<leftarrow>rows st. now - 24 * 3600000 \<le> storedAt r \<and> storedAt r < now]"
  using window_sum [where w = 3600000 and n = 24 and now = now and rs = "rows st"]
  unfolding hourlyBuckets_eq by (simp add: comp_def del: upt_rec_numeral)

lemma five_min_sum:
  "sum_list (map f_count (fiveMinBuckets fmt now st)) =
     length [r\<leftarrow>rows st. now - 3600000 \<le> storedAt r \<and> storedAt r < now]"
  using window_sum [where w = 300000 and n = 12 and now = now and rs = "rows st"]
  unfolding fiveMinBuckets_eq by (simp add: comp_def del: upt_rec_numeral)


text \<open>
  C6. For every table and instant the hourly histogram has 24 entries and the five-minute
  histogram 12. The entry at position \<open>23 - i\<close> (\<open>11 - i\<close>), so the oldest window first, is
  labelled from the start of window \<open>i\<close> and counts the rows with
  \<open>now - (i+1) w \<le> stored_at < now - i w\<close>, where \<open>w\<close> is one hour (five minutes); it is 0
  when no row lies there. The counts add up to the number of rows with
  \<open>now - 24 h \<le> stored_at < now\<close> (\<open>now - 1 h \<le> stored_at < now\<close>), so the windows neither
  overlap nor leave a gap.
\<close>

theorem histograms_complete:
  "length (hourlyBuckets fmt now st) = 24
   \<and> length (fiveMinBuckets fmt now st) = 12
   \<and> (\<forall>i<24. hourlyBuckets fmt now st ! (23 - i) =
          \<lparr>hour = take 13 (fmt (now - (int i + 1) * 3600000)) @ '':00Z'',
           h_count = length [r\<leftarrow>rows st. now - (int i + 1) * 3600000 \<le> storedAt r
                                        \<and> storedAt r < now - int i * 3600000]\<rparr>)
   \<and> (\<forall>i<12. fiveMinBuckets fmt now st ! (11 - i) =
          \<lparr>time = take 5 (drop 11 (fmt (now - (int i + 1) * 300000))) @ ''Z'',
           f_count = length [r\<leftarrow>rows st. now - (int i + 1) * 300000 \<le> storedAt r
                                        \<and> storedAt r < now - int i * 300000]\<rparr>)
   \<and> (\<forall>i<24. (\<forall>r\<in>set (rows st). \<not> (now - (int i + 1) * 3600000 \<le> storedAt r
                                        \<and> storedAt r < now - int i * 3600000))
          \<longrightarrow> h_count (hourlyBuckets fmt now st ! (23 - i)) = 0)
   \<and> (\<forall>i<12. (\<forall>r\<in>set (rows st). \<not> (now - (int i + 1) * 300000 \<le> storedAt r
                                        \<and> storedAt r < now - int i * 300000))
          \<longrightarrow> f_count (fiveMinBuckets fmt now st ! (11 - i)) = 0)
   \<and> sum_list (map h_count (hourlyBuckets fmt now st)) =
       length [r\<leftarrow>rows st. now - 24 * 3600000 \<le> storedAt r \<and> storedAt r < now]
   \<and> sum_list (map f_count (fiveMinBuckets fmt now st)) =
       length [r\<leftarrow>rows st. now - 3600000 \<le> storedAt r \<and> storedAt r < now]"
proof (intro conjI allI impI)
  show "length (hourlyBuckets fmt now st) = 24"
    unfolding hourlyBuckets_eq by (simp del: upt_rec_numeral)
  show "length (fiveMinBuckets fmt now st) = 12"
    unfolding fiveMinBuckets_eq by (simp del: upt_rec_numeral)
next
  fix i :: nat assume "i < 24"
  then show "hourlyBuckets fmt now st ! (23 - i) =
          \<lparr>hour = take 13 (fmt (now - (int i + 1) * 3600000)) @ '':00Z'',
           h_count = length [r\<leftarrow>rows st. now - (int i + 1) * 3600000 \<le> storedAt r
                                        \<and> storedAt r < now - int i * 3600000]\<rparr>"
    by (rule hourly_nth)
next
  fix i :: nat assume "i < 12"
  then show "fiveMinBuckets fmt now st ! (11 - i) =
          \<lparr>time = take 5 (drop 11 (fmt (now - (int i + 1) * 300000))) @ ''Z'',
           f_count = length [r\<leftarrow>rows st. now - (int i + 1) * 300000 \<le> storedAt r
                                        \<and> storedAt r < now - int i * 300000]\<rparr>"
    by (rule five_min_nth)
next
  fix i :: nat assume i: "i < 24"
    and e: "\<forall>r\<in>set (rows st). \<not> (now - (int i + 1) * 3600000 \<le> storedAt r
                                        \<and> storedAt r < now - int i * 3600000)"
  from e have "[r\<leftarrow>rows st. now - (int i + 1) * 3600000 \<le> storedAt r
                                        \<and> storedAt r < now - int i * 3600000] = []"
    by (simp only: filter_empty_conv)
  then show "h_count (hourlyBuckets fmt now st ! (23 - i)) = 0"
    by (simp only: hourly_nth [OF i]) simp
next
  fix i :: nat assume i: "i < 12"
    and e: "\<forall>r\<in>set (rows st). \<not> (now - (int i + 1) * 300000 \<le> storedAt r
                                        \<and> storedAt r < now - int i * 300000)"
  from e have "[r\<leftarrow>rows st. now - (int i + 1) * 300000 \<le> storedAt r
                                        \<and> storedAt r < now - int i * 300000] = []"
    by (simp only: filter_empty_conv)
  then show "f_count (fiveMinBuckets fmt now st ! (11 - i)) = 0"
    by (simp only: five_min_nth [OF i]) simp
next
  show "sum_list (map h_count (hourlyBuckets fmt now st)) =
       length [r\<leftarrow>rows st. now - 24 * 3600000 \<le> storedAt r \<and> storedAt r < now]"
    by (rule hourly_sum)
  show "sum_list (map f_count (fiveMinBuckets fmt now st)) =
       length [r\<leftarrow>rows st. now - 3600000 \<le> storedAt r \<and> storedAt r < now]"
    by (rule five_min_sum)
qed

theorem histograms_complete_witness:
  "length (hourlyBuckets (\<lambda>t. []) 7400000 spread_store) = 24
   \<and> h_count (hourlyBuckets (\<lambda>t. []) 7400000 spread_store ! 23) = 2
   \<and> h_count (hourlyBuckets (\<lambda>t. []) 7400000 spread_store ! 22) = 0
   \<and> h_count (hourlyBuckets (\<lambda>t. []) 7400000 spread_store ! 21) = 1
   \<and> f_count (fiveMinBuckets (\<lambda>t. []) 7400000 spread_store ! 11) = 1
   \<and> sum_list (map h_count (hourlyBuckets (\<lambda>t. []) 7400000 spread_store)) = 3
   \<and> sum_list (map f_count (fiveMinBuckets (\<lambda>t. []) 7400000 spread_store)) = 2"
proof -
  note t = histograms_complete [of "\<lambda>t. []" 7400000 spread_store]
  have len: "length (hourlyBuckets (\<lambda>t. []) 7400000 spread_store) = 24"
    using t by blast
  have h: "\<forall>i<24. hourlyBuckets (\<lambda>t. []) 7400000 spread_store ! (23 - i) =
          \<lparr>hour = take 13 [] @ '':00Z'',
           h_count = length [r\<leftarrow>rows spread_store. 7400000 - (int i + 1) * 3600000 \<le> storedAt r
                                        \<and> storedAt r < 7400000 - int i * 3600000]\<rparr>"
    using t by blast
  have f: "\<forall>i<12. fiveMinBuckets (\<lambda>t. []) 7400000 spread_store ! (11 - i) =
          \<lparr>time = take 5 (drop 11 []) @ ''Z'',
           f_count = length [r\<leftarrow>rows spread_store. 7400000 - (int i + 1) * 300000 \<le> storedAt r
                                        \<and> storedAt r < 7400000 - int i * 300000]\<rparr>"
    using t by blast
  have hs: "sum_list (map h_count (hourlyBuckets (\<lambda>t. []) 7400000 spread_store)) =
       length [r\<leftarrow>rows spread_store. 7400000 - 24 * 3600000 \<le> storedAt r \<and> storedAt r < 7400000]"
    using t by blast
  have fs: "sum_list (map f_count (fiveMinBuckets (\<lambda>t. []) 7400000 spread_store)) =
       length [r\<leftarrow>rows spread_store. 7400000 - 3600000 \<le> storedAt r \<and> storedAt r < 7400000]"
    using t by blast
  from h [rule_format, of 0] have h0: "h_count (hourlyBuckets (\<lambda>t. []) 7400000 spread_store ! 23) = 2"
    by (simp add: spread_store_def)
  from h [rule_format, of 1] have h1: "h_count (hourlyBuckets (\<lambda>t. []) 7400000 spread_store ! 22) = 0"
    by (simp add: spread_store_def)
  from h [rule_format, of 2] have h2: "h_count (hourlyBuckets (\<lambda>t. []) 7400000 spread_store ! 21) = 1"
    by (simp add: spread_store_def)
  from f [rule_format, of 0] have f0: "f_count (fiveMinBuckets (\<lambda>t. []) 7400000 spread_store ! 11) = 1"
    by (simp add: spread_store_def)
  from hs have hs': "sum_list (map h_count (hourlyBuckets (\<lambda>t. []) 7400000 spread_store)) = 3"
    by (simp add: spread_store_def)
  from fs have fs': "sum_list (map f_count (fiveMinBuckets (\<lambda>t. []) 7400000 spread_store)) = 2"
    by (simp add: spread_store_def)
  from len h0 h1 h2 f0 hs' fs' show ?thesis by (intro conjI)
qed

subsection \<open>Data range and ingestion rates\<close>












subsection \<open>Cross-monitor consistency\<close>























end
